theory Spec2Isabelle
  imports Main "HOL-Library.Log_Nat"
begin

section \<open>Data model (src/types/reconciliation.ts)\<close>

text \<open>
  Strings are lists of characters. The string operations below follow the ECMAScript
  definitions on the ASCII range; characters above 127 are carried along unchanged.
  A \<open>number\<close> holding an amount is modelled by the rational value it denotes and
  amounts are subtracted, negated and compared exactly; NaN and the infinities are not
  part of the model. A value of type \<open>string | number\<close> is a \<open>js_value\<close>.
\<close>

type_synonym number = rat

datatype js_value = Str string | Num number

record FinancialRecord =
  recordId :: string
  gstin :: string
  partyName :: string
  invoiceNo :: string
  invoiceDate :: string
  taxableAmount :: number
  igst :: number
  cgst :: number
  sgst :: number
  totalAmount :: number
  rawData :: "(string \<times> js_value) list"

datatype ReconciliationStatus = matched | mismatched | missing_in_purchase | missing_in_sales

record MismatchReason =
  field :: string
  purchaseValue :: js_value
  salesValue :: js_value
  difference :: "number option"

record ReconciliationResult =
  resultId :: string
  status :: ReconciliationStatus
  purchaseRecord :: "FinancialRecord option"
  salesRecord :: "FinancialRecord option"
  matchKey :: string
  mismatchReasons :: "MismatchReason list"
  totalDifference :: number

record ReconciliationSummary =
  totalRecords :: nat
  matchedCount :: nat
  mismatchedCount :: nat
  missingInPurchaseCount :: nat
  missingInSalesCount :: nat
  matchPercentage :: int
  totalDifferenceAmount :: number

section \<open>String primitives\<close>

definition code_unit :: "char \<Rightarrow> nat" where
  "code_unit c = of_char c"

text \<open>White space of \<open>String.prototype.trim\<close> and of the pattern \<open>\s\<close>: TAB, LF, VT, FF, CR, SP.\<close>

definition is_space :: "char \<Rightarrow> bool" where
  "is_space c = (code_unit c = 32 \<or> (9 \<le> code_unit c \<and> code_unit c \<le> 13))"

text \<open>The pattern \<open>\d\<close>.\<close>

definition is_digit :: "char \<Rightarrow> bool" where
  "is_digit c = (48 \<le> code_unit c \<and> code_unit c \<le> 57)"

definition trim :: "string \<Rightarrow> string" where
  "trim s = rev (dropWhile is_space (rev (dropWhile is_space s)))"

definition upper_char :: "char \<Rightarrow> char" where
  "upper_char c =
     (if 97 \<le> code_unit c \<and> code_unit c \<le> 122 then char_of (code_unit c - 32) else c)"

definition lower_char :: "char \<Rightarrow> char" where
  "lower_char c =
     (if 65 \<le> code_unit c \<and> code_unit c \<le> 90 then char_of (code_unit c + 32) else c)"

definition toUpperCase :: "string \<Rightarrow> string" where
  "toUpperCase s = map upper_char s"

definition toLowerCase :: "string \<Rightarrow> string" where
  "toLowerCase s = map lower_char s"

text \<open>\<open>s.replace(/\s+/g, "")\<close> deletes every white-space character.\<close>

definition strip_spaces :: "string \<Rightarrow> string" where
  "strip_spaces s = filter (\<lambda>c. \<not> is_space c) s"

text \<open>\<open>s.includes(t)\<close>: \<open>t\<close> occurs in \<open>s\<close> as a contiguous run.\<close>

fun starts_with :: "string \<Rightarrow> string \<Rightarrow> bool" where
  "starts_with s [] = True"
| "starts_with [] (y # ys) = False"
| "starts_with (x # xs) (y # ys) = (x = y \<and> starts_with xs ys)"

fun includes_js :: "string \<Rightarrow> string \<Rightarrow> bool" where
  "includes_js [] t = (t = [])"
| "includes_js (x # xs) t = (starts_with (x # xs) t \<or> includes_js xs t)"

section \<open>Key normalizer (src/lib/reconciliation.ts, generateMatchKey)\<close>

text \<open>\<open>dateStr.match(/^(\d{4})-(\d{2})-(\d{2})$/)\<close>, as a truth value.\<close>

definition isoMatch :: "string \<Rightarrow> bool" where
  "isoMatch s =
     (length s = 10 \<and> list_all is_digit (take 4 s) \<and> s ! 4 = CHR ''-''
      \<and> list_all is_digit (take 2 (drop 5 s)) \<and> s ! 7 = CHR ''-''
      \<and> list_all is_digit (drop 8 s))"

definition is_date_sep :: "char \<Rightarrow> bool" where
  "is_date_sep c = (c = CHR ''-'' \<or> c = CHR ''/'')"

text \<open>
  \<open>dateStr.match(/^(\d{2})[-/](\d{2})[-/](\d{4})$/)\<close>: the three captured groups
  (day, month, year) when the pattern matches.
\<close>

definition indianMatch :: "string \<Rightarrow> (string \<times> string \<times> string) option" where
  "indianMatch s =
     (if length s = 10 \<and> list_all is_digit (take 2 s) \<and> is_date_sep (s ! 2)
         \<and> list_all is_digit (take 2 (drop 3 s)) \<and> is_date_sep (s ! 5)
         \<and> list_all is_digit (drop 6 s)
      then Some (take 2 s, take 2 (drop 3 s), drop 6 s)
      else None)"

definition normalizeInvoiceNo :: "string \<Rightarrow> string" where
  "normalizeInvoiceNo s = strip_spaces (toUpperCase (trim s))"

definition normalizeDate :: "string \<Rightarrow> string" where
  "normalizeDate d =
     (if d = [] then []
      else let dateStr = trim d in
        if isoMatch dateStr then dateStr
        else (case indianMatch dateStr of
                Some (day, month, year) \<Rightarrow> year @ ''-'' @ month @ ''-'' @ day
              | None \<Rightarrow> dateStr))"

definition generateMatchKey :: "FinancialRecord \<Rightarrow> string" where
  "generateMatchKey record =
     normalizeInvoiceNo (invoiceNo record) @ ''|'' @ normalizeDate (invoiceDate record)"

text \<open>
  The three accepted date formats as the specification names them, written from its
  words: YYYY-MM-DD, DD-MM-YYYY and DD/MM/YYYY, the last two with one separator used
  twice. They are compared with the two patterns of the code below.
\<close>

definition dmy_format :: "char \<Rightarrow> string \<Rightarrow> bool" where
  "dmy_format sep s =
     (length s = 10 \<and> list_all is_digit (take 2 s) \<and> s ! 2 = sep
      \<and> list_all is_digit (take 2 (drop 3 s)) \<and> s ! 5 = sep
      \<and> list_all is_digit (drop 6 s))"

definition accepted_format :: "string \<Rightarrow> bool" where
  "accepted_format s = (isoMatch s \<or> dmy_format CHR ''-'' s \<or> dmy_format CHR ''/'' s)"

section \<open>Discrepancy detector (compareAmounts, findMismatches)\<close>

definition AMOUNT_TOLERANCE :: number where
  "AMOUNT_TOLERANCE = 1"

text \<open>The returned object \<open>{ isEqual, difference }\<close> is the pair of its two fields.\<close>

definition compareAmounts :: "number \<Rightarrow> number \<Rightarrow> number \<Rightarrow> bool \<times> number" where
  "compareAmounts amount1 amount2 tolerance =
     (let difference = \<bar>amount1 - amount2\<bar>
      in (difference \<le> tolerance, amount1 - amount2))"

text \<open>
  Each block of \<open>findMismatches\<close> pushes at most one reason onto \<open>reasons\<close>; a block is
  modelled by the list of what it pushes, and the function by the blocks in source order.
\<close>

definition gstinBlock :: "FinancialRecord \<Rightarrow> FinancialRecord \<Rightarrow> MismatchReason list" where
  "gstinBlock purchaseRec salesRec =
     (let purchaseGstin = trim (toUpperCase (gstin purchaseRec));
          salesGstin = trim (toUpperCase (gstin salesRec))
      in if purchaseGstin \<noteq> [] \<and> salesGstin \<noteq> [] \<and> purchaseGstin \<noteq> salesGstin
         then [\<lparr>field = ''GSTIN'', purchaseValue = Str (gstin purchaseRec),
                salesValue = Str (gstin salesRec), difference = None\<rparr>]
         else [])"

definition partyNameBlock :: "FinancialRecord \<Rightarrow> FinancialRecord \<Rightarrow> MismatchReason list" where
  "partyNameBlock purchaseRec salesRec =
     (let purchaseName = trim (toLowerCase (partyName purchaseRec));
          salesName = trim (toLowerCase (partyName salesRec))
      in if purchaseName \<noteq> [] \<and> salesName \<noteq> [] \<and> purchaseName \<noteq> salesName
         then (if \<not> includes_js purchaseName salesName \<and> \<not> includes_js salesName purchaseName
               then [\<lparr>field = ''Party Name'', purchaseValue = Str (partyName purchaseRec),
                      salesValue = Str (partyName salesRec), difference = None\<rparr>]
               else [])
         else [])"

definition amountBlock :: "string \<Rightarrow> number \<Rightarrow> number \<Rightarrow> MismatchReason list" where
  "amountBlock name purchaseAmount salesAmount =
     (let comparison = compareAmounts purchaseAmount salesAmount AMOUNT_TOLERANCE
      in if \<not> fst comparison
         then [\<lparr>field = name, purchaseValue = Num purchaseAmount,
                salesValue = Num salesAmount, difference = Some (snd comparison)\<rparr>]
         else [])"

definition findMismatches :: "FinancialRecord \<Rightarrow> FinancialRecord \<Rightarrow> MismatchReason list" where
  "findMismatches purchaseRec salesRec =
     gstinBlock purchaseRec salesRec
     @ partyNameBlock purchaseRec salesRec
     @ amountBlock ''Taxable Amount'' (taxableAmount purchaseRec) (taxableAmount salesRec)
     @ amountBlock ''IGST'' (igst purchaseRec) (igst salesRec)
     @ amountBlock ''CGST'' (cgst purchaseRec) (cgst salesRec)
     @ amountBlock ''SGST'' (sgst purchaseRec) (sgst salesRec)
     @ amountBlock ''Total Amount'' (totalAmount purchaseRec) (totalAmount salesRec)"

text \<open>The reasons of a list that name a given field, and the reason an amount block pushes.\<close>

definition reasons_for :: "string \<Rightarrow> MismatchReason list \<Rightarrow> MismatchReason list" where
  "reasons_for name reasons = filter (\<lambda>m. field m = name) reasons"


section \<open>Reconciliation matcher (reconcileDatasets)\<close>

text \<open>
  A \<open>Map<string, V>\<close> is the list of its entries in insertion order, with distinct keys:
  \<open>set\<close> on a key already present replaces the value where the entry stands, \<open>set\<close> on a
  new key appends, \<open>get\<close> returns \<open>None\<close> for \<open>undefined\<close>, iteration runs down the list.
\<close>

type_synonym 'v js_map = "(string \<times> 'v) list"

fun map_set :: "'v js_map \<Rightarrow> string \<Rightarrow> 'v \<Rightarrow> 'v js_map" where
  "map_set [] k v = [(k, v)]"
| "map_set ((k', v') # m) k v = (if k' = k then (k', v) # m else (k', v') # map_set m k v)"

definition map_get :: "'v js_map \<Rightarrow> string \<Rightarrow> 'v option" where
  "map_get m k = map_of m k"

text \<open>The two loops that fill \<open>purchaseMap\<close> and \<open>salesMap\<close>.\<close>

fun build_lookup :: "FinancialRecord list \<Rightarrow> FinancialRecord js_map \<Rightarrow> FinancialRecord js_map" where
  "build_lookup [] m = m"
| "build_lookup (record # records) m =
     build_lookup records (map_set m (generateMatchKey record) record)"

text \<open>The decimal numeral of a length, for the template \<open>`result-${results.length}`\<close>.\<close>

fun digits_of :: "nat \<Rightarrow> string" where
  "digits_of n =
     (if n < 10 then [char_of (48 + n)] else digits_of (n div 10) @ [char_of (48 + n mod 10)])"

definition result_id :: "nat \<Rightarrow> string" where
  "result_id n = ''result-'' @ digits_of n"

text \<open>\<open>totalDiff?.difference || 0\<close>: \<open>undefined\<close> and \<open>0\<close> are falsy.\<close>

definition or_zero :: "number option \<Rightarrow> number" where
  "or_zero x = (case x of None \<Rightarrow> 0 | Some d \<Rightarrow> if d = 0 then 0 else d)"

definition totalDiffOf :: "MismatchReason list \<Rightarrow> number" where
  "totalDiffOf mismatches =
     (let totalDiff = find (\<lambda>m. field m = ''Total Amount'') mismatches
      in or_zero (case totalDiff of None \<Rightarrow> None | Some m \<Rightarrow> difference m))"

text \<open>
  The state of the two result loops is the list \<open>results\<close> and the set \<open>processedKeys\<close>.
  \<open>purchase_step\<close> is one iteration of the loop over \<open>purchaseMap\<close>, \<open>sales_step\<close> one
  iteration of the loop over \<open>salesMap\<close>.
\<close>

type_synonym matcher_state = "ReconciliationResult list \<times> string set"

definition purchase_step ::
  "FinancialRecord js_map \<Rightarrow> string \<times> FinancialRecord \<Rightarrow> matcher_state \<Rightarrow> matcher_state" where
  "purchase_step salesMap entry st =
     (let key = fst entry; purchaseRec = snd entry;
          results = fst st; processedKeys = insert key (snd st)
      in case map_get salesMap key of
           None \<Rightarrow>
             (results @ [\<lparr>resultId = result_id (length results), status = missing_in_sales,
                          purchaseRecord = Some purchaseRec, salesRecord = None, matchKey = key,
                          mismatchReasons = [], totalDifference = totalAmount purchaseRec\<rparr>],
              processedKeys)
         | Some salesRec \<Rightarrow>
             (let mismatches = findMismatches purchaseRec salesRec
              in if length mismatches = 0
                 then (results @ [\<lparr>resultId = result_id (length results), status = matched,
                          purchaseRecord = Some purchaseRec, salesRecord = Some salesRec,
                          matchKey = key, mismatchReasons = [], totalDifference = 0\<rparr>],
                       processedKeys)
                 else (results @ [\<lparr>resultId = result_id (length results), status = mismatched,
                          purchaseRecord = Some purchaseRec, salesRecord = Some salesRec,
                          matchKey = key, mismatchReasons = mismatches,
                          totalDifference = totalDiffOf mismatches\<rparr>],
                       processedKeys)))"

fun purchase_loop ::
  "FinancialRecord js_map \<Rightarrow> FinancialRecord js_map \<Rightarrow> matcher_state \<Rightarrow> matcher_state" where
  "purchase_loop salesMap [] st = st"
| "purchase_loop salesMap (entry # entries) st =
     purchase_loop salesMap entries (purchase_step salesMap entry st)"

definition sales_step :: "string \<times> FinancialRecord \<Rightarrow> matcher_state \<Rightarrow> matcher_state" where
  "sales_step entry st =
     (let key = fst entry; salesRec = snd entry; results = fst st; processedKeys = snd st
      in if key \<notin> processedKeys
         then (results @ [\<lparr>resultId = result_id (length results), status = missing_in_purchase,
                         purchaseRecord = None, salesRecord = Some salesRec, matchKey = key,
                         mismatchReasons = [], totalDifference = - totalAmount salesRec\<rparr>],
               processedKeys)
         else (results, processedKeys))"

fun sales_loop :: "FinancialRecord js_map \<Rightarrow> matcher_state \<Rightarrow> matcher_state" where
  "sales_loop [] st = st"
| "sales_loop (entry # entries) st = sales_loop entries (sales_step entry st)"

definition reconcileDatasets ::
  "FinancialRecord list \<Rightarrow> FinancialRecord list \<Rightarrow> ReconciliationResult list" where
  "reconcileDatasets purchaseRecords salesRecords =
     (let purchaseMap = build_lookup purchaseRecords [];
          salesMap = build_lookup salesRecords [];
          st = purchase_loop salesMap purchaseMap ([], {});
          st' = sales_loop salesMap st
      in fst st')"

text \<open>
  The object pushed by one iteration of either loop, as a function of \<open>results.length\<close>
  and the map entry, and a list paired with the lengths \<open>results\<close> has as it is walked.
  They state the closed form of \<open>reconcileDatasets\<close> proved below.
\<close>

definition purchase_result ::
  "FinancialRecord js_map \<Rightarrow> nat \<Rightarrow> string \<times> FinancialRecord \<Rightarrow> ReconciliationResult" where
  "purchase_result salesMap n entry =
     (case map_get salesMap (fst entry) of
        None \<Rightarrow>
          \<lparr>resultId = result_id n, status = missing_in_sales, purchaseRecord = Some (snd entry),
           salesRecord = None, matchKey = fst entry, mismatchReasons = [],
           totalDifference = totalAmount (snd entry)\<rparr>
      | Some salesRec \<Rightarrow>
          if findMismatches (snd entry) salesRec = []
          then \<lparr>resultId = result_id n, status = matched, purchaseRecord = Some (snd entry),
                salesRecord = Some salesRec, matchKey = fst entry, mismatchReasons = [],
                totalDifference = 0\<rparr>
          else \<lparr>resultId = result_id n, status = mismatched, purchaseRecord = Some (snd entry),
                salesRecord = Some salesRec, matchKey = fst entry,
                mismatchReasons = findMismatches (snd entry) salesRec,
                totalDifference = totalDiffOf (findMismatches (snd entry) salesRec)\<rparr>)"

definition sales_result :: "nat \<Rightarrow> string \<times> FinancialRecord \<Rightarrow> ReconciliationResult" where
  "sales_result n entry =
     \<lparr>resultId = result_id n, status = missing_in_purchase, purchaseRecord = None,
      salesRecord = Some (snd entry), matchKey = fst entry, mismatchReasons = [],
      totalDifference = - totalAmount (snd entry)\<rparr>"

fun numbered :: "nat \<Rightarrow> 'a list \<Rightarrow> (nat \<times> 'a) list" where
  "numbered n [] = []"
| "numbered n (x # xs) = (n, x) # numbered (Suc n) xs"

section \<open>Summary aggregator (calculateSummary)\<close>

text \<open>
  The counts are array lengths, which a Number holds exactly. The quotient
  \<open>matchedCount / totalRecords\<close> and its product with \<open>100\<close> are Number operations: each
  returns the double nearest to the exact result, a tie going to the even significand
  (IEEE 754 binary64, 53 significant bits). The integer \<open>Math.round\<close> returns depends on
  this rounding, so it is modelled: \<open>to_double\<close> is the rounding as a function on the
  rationals. The exponent range is not modelled, which loses nothing here, since the
  quotient of two array lengths is 0 or lies between \<open>2\<^sup>-\<^sup>3\<^sup>2\<close> and 1. The sum
  \<open>totalDifferenceAmount\<close> is a sum of amounts and exact, as all amounts are.
\<close>

definition pow2 :: "int \<Rightarrow> rat" where
  "pow2 e = (if 0 \<le> e then 2 ^ nat e else 1 / 2 ^ nat (- e))"

text \<open>For \<open>x > 0\<close>, the integer \<open>e\<close> with \<open>2\<^sup>e \<le> x < 2\<^sup>e\<^sup>+\<^sup>1\<close>.\<close>

definition binary_exponent :: "rat \<Rightarrow> int" where
  "binary_exponent x =
     (let k = bitlen (fst (quotient_of x)) - bitlen (snd (quotient_of x))
      in if pow2 k \<le> x then k else k - 1)"

definition round_ties_even :: "rat \<Rightarrow> int" where
  "round_ties_even x =
     (let f = \<lfloor>x\<rfloor>; r = x - of_int f
      in if r < 1 / 2 then f else if 1 / 2 < r then f + 1 else if even f then f else f + 1)"

definition to_double :: "rat \<Rightarrow> rat" where
  "to_double x =
     (if x = 0 then 0
      else let ulp = pow2 (binary_exponent \<bar>x\<bar> - 52)
           in sgn x * of_int (round_ties_even (\<bar>x\<bar> / ulp)) * ulp)"

definition js_div :: "rat \<Rightarrow> rat \<Rightarrow> rat" where
  "js_div a b = to_double (a / b)"

definition js_mul :: "rat \<Rightarrow> rat \<Rightarrow> rat" where
  "js_mul a b = to_double (a * b)"

text \<open>\<open>Math.round\<close>: the nearest integer, a tie going to the one closer to \<open>+\<infinity>\<close>.\<close>

definition Math_round :: "rat \<Rightarrow> int" where
  "Math_round x = \<lfloor>x + 1 / 2\<rfloor>"

definition calculateSummary :: "ReconciliationResult list \<Rightarrow> ReconciliationSummary" where
  "calculateSummary results =
     (let nTotal = length results;
          nMatched = length (filter (\<lambda>r. status r = matched) results);
          nMismatched = length (filter (\<lambda>r. status r = mismatched) results);
          nMissingInPurchase = length (filter (\<lambda>r. status r = missing_in_purchase) results);
          nMissingInSales = length (filter (\<lambda>r. status r = missing_in_sales) results);
          percentage =
            (if nTotal > 0
             then Math_round (js_mul (js_div (of_nat nMatched) (of_nat nTotal)) 100)
             else 0);
          differenceAmount = foldl (\<lambda>sum r. sum + \<bar>totalDifference r\<bar>) 0 results
      in \<lparr>totalRecords = nTotal, matchedCount = nMatched, mismatchedCount = nMismatched,
          missingInPurchaseCount = nMissingInPurchase, missingInSalesCount = nMissingInSales,
          matchPercentage = percentage, totalDifferenceAmount = differenceAmount\<rparr>)"

text \<open>
  The rounding the specification names, written from its words: round half away from
  zero. It is compared with \<open>Math_round\<close> below.
\<close>

definition round_half_away_from_zero :: "rat \<Rightarrow> int" where
  "round_half_away_from_zero x = (if 0 \<le> x then \<lfloor>x + 1 / 2\<rfloor> else - \<lfloor>- x + 1 / 2\<rfloor>)"

text \<open>
  The percentage as the specification states it, written from its words: the exact
  quotient times 100, rounded half away from zero, and 0 for an empty list.
\<close>

definition spec_matchPercentage :: "nat \<Rightarrow> nat \<Rightarrow> int" where
  "spec_matchPercentage nMatched nTotal =
     (if nTotal = 0 then 0
      else round_half_away_from_zero (of_nat nMatched / of_nat nTotal * 100))"

section \<open>Sample data\<close>

definition inv1 :: "string \<Rightarrow> FinancialRecord" where
  "inv1 d = \<lparr>recordId = ''row-0'', gstin = [], partyName = [], invoiceNo = ''INV-1'',
     invoiceDate = d, taxableAmount = 0, igst = 0, cgst = 0, sgst = 0, totalAmount = 0,
     rawData = []\<rparr>"

definition sample_record :: "string \<Rightarrow> string \<Rightarrow> string \<Rightarrow> number \<Rightarrow> FinancialRecord" where
  "sample_record invNo date party amount =
     \<lparr>recordId = ''row-0'', gstin = ''27AAACH1234F1Z5'', partyName = party, invoiceNo = invNo,
      invoiceDate = date, taxableAmount = 1000, igst = 180, cgst = 0, sgst = 0,
      totalAmount = amount, rawData = []\<rparr>"

definition sample_result :: "nat \<Rightarrow> ReconciliationStatus \<Rightarrow> ReconciliationResult" where
  "sample_result n st =
     \<lparr>resultId = result_id n, status = st,
      purchaseRecord =
        (if st = missing_in_purchase then None
         else Some (sample_record (''INV-'' @ digits_of n) ''2024-01-05''
                      ''HCL Technologies'' 1180)),
      salesRecord =
        (if st = missing_in_sales then None
         else Some (sample_record (''INV-'' @ digits_of n) ''05-01-2024''
                      ''HCL Technologies'' 1180)),
      matchKey = ''INV-'' @ digits_of n @ ''|2024-01-05'', mismatchReasons = [],
      totalDifference =
        (if st = missing_in_sales then 1180 else if st = missing_in_purchase then - 1180
         else 0)\<rparr>"

text \<open>The first \<open>m\<close> of \<open>n\<close> results matched, the others missing in sales.\<close>

definition sample_results :: "nat \<Rightarrow> nat \<Rightarrow> ReconciliationResult list" where
  "sample_results m n =
     map (\<lambda>i. sample_result i (if i < m then matched else missing_in_sales)) [0 ..< n]"

section \<open>Facts about the string primitives\<close>

lemma digit_not_space: "is_digit c \<Longrightarrow> \<not> is_space c"
  by (auto simp: is_digit_def is_space_def)

lemma sep_not_digit: "is_date_sep c \<Longrightarrow> \<not> is_digit c"
  by (auto simp: is_date_sep_def is_digit_def code_unit_def)

lemma sep_not_space: "is_date_sep c \<Longrightarrow> \<not> is_space c"
  by (auto simp: is_date_sep_def is_space_def code_unit_def)

lemma trim_empty [simp]: "trim [] = []"
  by (simp add: trim_def)

lemma trim_id:
  assumes "s \<noteq> []" and "\<not> is_space (hd s)" and "\<not> is_space (last s)"
  shows "trim s = s"
proof -
  have "dropWhile is_space s = s"
    using assms by (cases s) auto
  moreover have "dropWhile is_space (rev s) = rev s"
    using assms by (simp add: dropWhile_eq_self_iff hd_rev)
  ultimately show ?thesis
    by (simp add: trim_def)
qed

lemma starts_with_iff: "starts_with s t \<longleftrightarrow> (\<exists>post. s = t @ post)"
  by (induction s t rule: starts_with.induct) auto

lemma includes_js_iff: "includes_js s t \<longleftrightarrow> (\<exists>pre post. s = pre @ t @ post)"
proof (induction s)
  case Nil
  then show ?case by simp
next
  case (Cons x xs)
  show ?case
  proof
    assume "includes_js (x # xs) t"
    then consider "starts_with (x # xs) t" | "includes_js xs t" by auto
    then show "\<exists>pre post. x # xs = pre @ t @ post"
    proof cases
      case 1
      then obtain post where "x # xs = t @ post" by (auto simp: starts_with_iff)
      then have "x # xs = [] @ t @ post" by simp
      then show ?thesis by blast
    next
      case 2
      then obtain pre post where "xs = pre @ t @ post" using Cons.IH by auto
      then have "x # xs = (x # pre) @ t @ post" by simp
      then show ?thesis by blast
    qed
  next
    assume "\<exists>pre post. x # xs = pre @ t @ post"
    then obtain pre post where e: "x # xs = pre @ t @ post" by auto
    show "includes_js (x # xs) t"
    proof (cases pre)
      case Nil
      with e have "starts_with (x # xs) t" by (auto simp: starts_with_iff)
      then show ?thesis by simp
    next
      case (Cons a pre')
      with e have "xs = pre' @ t @ post" by simp
      then have "includes_js xs t" using Cons.IH by blast
      then show ?thesis by simp
    qed
  qed
qed

section \<open>Facts about the key normalizer\<close>


lemma accepted_format_recognized:
  "accepted_format s \<Longrightarrow> isoMatch s \<or> indianMatch s \<noteq> None"
  by (auto simp: accepted_format_def dmy_format_def indianMatch_def is_date_sep_def)

lemma generateMatchKey_update_other [simp]:
  "generateMatchKey (r\<lparr>totalAmount := t\<rparr>) = generateMatchKey r"
  "generateMatchKey (r\<lparr>partyName := n\<rparr>) = generateMatchKey r"
  by (simp_all add: generateMatchKey_def)

lemma sample_keys:
  "generateMatchKey (sample_record ''INV-1'' ''2024-01-05'' ''HCL Technologies'' 1180) = ''INV-1|2024-01-05''"
  "generateMatchKey (sample_record ''INV-1'' ''05-01-2024'' ''HCL Technologies'' 1175) = ''INV-1|2024-01-05''"
  "generateMatchKey (sample_record ''inv-1'' ''05/01/2024'' ''HCL Tech'' 999) = ''INV-1|2024-01-05''"
  "generateMatchKey (sample_record ''INV-2024-016'' ''2024-01-20'' ''Wipro'' 500) = ''INV-2024-016|2024-01-20''"
  "generateMatchKey (sample_record ''INV-2024-012'' ''2024-01-12'' ''Infosys'' 700) = ''INV-2024-012|2024-01-12''"
  by code_simp+

lemma separator_collision_example:
  "generateMatchKey (sample_record ''A|B'' ''C'' ''HCL Technologies'' 1180)
   = generateMatchKey (sample_record ''A'' ''B|C'' ''HCL Technologies'' 1180)"
  by code_simp

lemma trimmed_date_collision_example:
  "generateMatchKey (inv1 ''Jan 5, 2024'') = generateMatchKey (inv1 '' Jan 5, 2024'')"
  by code_simp

section \<open>Facts about the detector\<close>


lemma reasons_for_append [simp]: "reasons_for n (xs @ ys) = reasons_for n xs @ reasons_for n ys"
  by (simp add: reasons_for_def)













section \<open>Facts about the matcher\<close>

lemma result_id_0 [simp]: "result_id 0 = ''result-0''"
  unfolding result_id_def by code_simp


lemma map_snd_numbered [simp]: "map snd (numbered n xs) = xs"
  by (induction xs arbitrary: n) simp_all

lemma length_numbered [simp]: "length (numbered n xs) = length xs"
  by (induction xs arbitrary: n) simp_all

lemma purchase_step_eq:
  "purchase_step sm e st
   = (fst st @ [purchase_result sm (length (fst st)) e], insert (fst e) (snd st))"
  by (simp add: purchase_step_def purchase_result_def Let_def split: option.split)

lemma sales_step_eq:
  "sales_step e st
   = (if fst e \<notin> snd st then (fst st @ [sales_result (length (fst st)) e], snd st) else st)"
  by (simp add: sales_step_def sales_result_def Let_def)

lemma purchase_loop_eq:
  "purchase_loop sm pm (res, K)
   = (res @ map (\<lambda>ie. purchase_result sm (fst ie) (snd ie)) (numbered (length res) pm),
      K \<union> fst ` set pm)"
proof (induction pm arbitrary: res K)
  case Nil
  show ?case by simp
next
  case (Cons e pm)
  show ?case
    by (simp add: purchase_step_eq Cons.IH)
qed

lemma sales_loop_eq:
  "sales_loop sm (res, K)
   = (res @ map (\<lambda>ie. sales_result (fst ie) (snd ie))
              (numbered (length res) (filter (\<lambda>e. fst e \<notin> K) sm)), K)"
proof (induction sm arbitrary: res)
  case Nil
  show ?case by simp
next
  case (Cons e sm)
  show ?case
    by (simp add: sales_step_eq Cons.IH)
qed

lemma reconcileDatasets_eq:
  "reconcileDatasets ps ss =
     (let pm = build_lookup ps []; sm = build_lookup ss []
      in map (\<lambda>ie. purchase_result sm (fst ie) (snd ie)) (numbered 0 pm)
         @ map (\<lambda>ie. sales_result (fst ie) (snd ie))
             (numbered (length pm) (filter (\<lambda>e. fst e \<notin> fst ` set pm) sm)))"
  by (simp add: reconcileDatasets_def Let_def purchase_loop_eq sales_loop_eq)

lemma matchKey_purchase_result [simp]: "matchKey (purchase_result sm n e) = fst e"
  by (simp add: purchase_result_def split: option.split)

lemma matchKey_sales_result [simp]: "matchKey (sales_result n e) = fst e"
  by (simp add: sales_result_def)

lemma map_of_map_set: "map_of (map_set m k v) = (map_of m)(k \<mapsto> v)"
  by (induction m k v rule: map_set.induct) (auto simp: fun_eq_iff)

lemma key_set_map_set: "fst ` set (map_set m k v) = insert k (fst ` set m)"
  by (induction m k v rule: map_set.induct) auto

lemma keys_map_set:
  "map fst (map_set m k v) = (if k \<in> fst ` set m then map fst m else map fst m @ [k])"
  by (induction m k v rule: map_set.induct) auto

lemma distinct_map_set: "distinct (map fst m) \<Longrightarrow> distinct (map fst (map_set m k v))"
  by (simp add: keys_map_set)

lemma find_append:
  "find P (xs @ ys) = (case find P xs of None \<Rightarrow> find P ys | Some x \<Rightarrow> Some x)"
  by (induction xs) auto

lemma distinct_build_lookup:
  "distinct (map fst m) \<Longrightarrow> distinct (map fst (build_lookup rs m))"
  by (induction rs arbitrary: m) (simp_all add: distinct_map_set)

lemma keys_build_lookup:
  "fst ` set (build_lookup rs m) = fst ` set m \<union> generateMatchKey ` set rs"
proof (induction rs arbitrary: m)
  case Nil
  show ?case by simp
next
  case (Cons r rs)
  show ?case
    by (simp add: Cons.IH key_set_map_set)
qed

lemma map_of_build_lookup:
  "map_of (build_lookup rs m) k
   = (case find (\<lambda>r. generateMatchKey r = k) (rev rs) of
        None \<Rightarrow> map_of m k | Some r \<Rightarrow> Some r)"
proof (induction rs arbitrary: m)
  case Nil
  show ?case by simp
next
  case (Cons r rs)
  show ?case
    by (simp add: Cons.IH find_append map_of_map_set split: option.split)
qed

lemma map_of_build_lookup_Nil:
  "map_of (build_lookup rs []) k = find (\<lambda>r. generateMatchKey r = k) (rev rs)"
  by (simp add: map_of_build_lookup split: option.split)

lemma lookup_entry:
  "map_get (build_lookup rs []) k = Some r \<Longrightarrow> (k, r) \<in> set (build_lookup rs [])"
  by (simp add: map_get_def map_of_SomeD)

lemma entry_lookup:
  "(k, r) \<in> set (build_lookup rs []) \<Longrightarrow> map_get (build_lookup rs []) k = Some r"
  by (simp add: map_get_def distinct_build_lookup)

lemma lookup_None_iff:
  "map_get (build_lookup rs []) k = None \<longleftrightarrow> k \<notin> fst ` set (build_lookup rs [])"
  by (simp add: map_get_def map_of_eq_None_iff)

lemma matchKey_purchase_results:
  "map matchKey (map (\<lambda>ie. purchase_result sm (fst ie) (snd ie)) (numbered n pm)) = map fst pm"
  by (induction pm arbitrary: n) simp_all

lemma matchKey_sales_results:
  "map matchKey (map (\<lambda>ie. sales_result (fst ie) (snd ie)) (numbered n xs)) = map fst xs"
  by (induction xs arbitrary: n) simp_all

lemma set_map_numbered:
  "set (map (\<lambda>ie. f (fst ie) (snd ie)) (numbered n xs))
   = {f (n + i) (xs ! i) | i. i < length xs}"
proof (induction xs arbitrary: n)
  case Nil
  show ?case by simp
next
  case (Cons x xs)
  have "{f (n + i) ((x # xs) ! i) | i. i < Suc (length xs)}
      = insert (f n x) {f (Suc n + i) (xs ! i) | i. i < length xs}"
  proof (intro set_eqI iffI)
    fix r
    assume "r \<in> {f (n + i) ((x # xs) ! i) | i. i < Suc (length xs)}"
    then obtain i where i: "i < Suc (length xs)" "r = f (n + i) ((x # xs) ! i)" by auto
    show "r \<in> insert (f n x) {f (Suc n + i) (xs ! i) | i. i < length xs}"
    proof (cases i)
      case 0
      with i show ?thesis by simp
    next
      case (Suc j)
      with i have "j < length xs" "r = f (Suc n + j) (xs ! j)" by simp_all
      then show ?thesis by blast
    qed
  next
    fix r
    assume "r \<in> insert (f n x) {f (Suc n + i) (xs ! i) | i. i < length xs}"
    then consider "r = f n x" | i where "i < length xs" "r = f (Suc n + i) (xs ! i)" by auto
    then show "r \<in> {f (n + i) ((x # xs) ! i) | i. i < Suc (length xs)}"
    proof cases
      case 1
      then have "0 < Suc (length xs) \<and> r = f (n + 0) ((x # xs) ! 0)" by simp
      then show ?thesis by blast
    next
      case 2
      then have "Suc i < Suc (length xs) \<and> r = f (n + Suc i) ((x # xs) ! Suc i)" by simp
      then show ?thesis by blast
    qed
  qed
  then show ?case
    using Cons.IH [of "Suc n"] by simp
qed

lemma in_results_cases:
  assumes "r \<in> set (reconcileDatasets ps ss)"
  obtains (purchase) i k p where "(k, p) \<in> set (build_lookup ps [])"
      and "r = purchase_result (build_lookup ss []) i (k, p)"
    | (sales) i k s where "(k, s) \<in> set (build_lookup ss [])"
      and "k \<notin> fst ` set (build_lookup ps [])" and "r = sales_result i (k, s)"
proof -
  let ?pm = "build_lookup ps []" and ?sm = "build_lookup ss []"
  let ?sm' = "filter (\<lambda>e. fst e \<notin> fst ` set ?pm) ?sm"
  from assms consider
      "r \<in> {purchase_result ?sm (0 + i) (?pm ! i) | i. i < length ?pm}"
    | "r \<in> {sales_result (length ?pm + i) (?sm' ! i) | i. i < length ?sm'}"
    by (auto simp: reconcileDatasets_eq Let_def set_map_numbered simp del: set_map)
  then show thesis
  proof cases
    case 1
    then obtain i where i: "i < length ?pm" "r = purchase_result ?sm i (?pm ! i)" by auto
    obtain k p where kp: "?pm ! i = (k, p)" by (cases "?pm ! i")
    with i have "(k, p) \<in> set ?pm" by (metis nth_mem)
    with i kp show ?thesis by (auto intro: purchase)
  next
    case 2
    then obtain i where i: "i < length ?sm'" "r = sales_result (length ?pm + i) (?sm' ! i)"
      by auto
    obtain k s where ks: "?sm' ! i = (k, s)" by (cases "?sm' ! i")
    with i have "(k, s) \<in> set ?sm'" by (metis nth_mem)
    then have "(k, s) \<in> set ?sm" "k \<notin> fst ` set ?pm" by auto
    with i ks show ?thesis by (auto intro: sales)
  qed
qed

lemma purchase_entry_in_results:
  assumes "(k, p) \<in> set (build_lookup ps [])"
  shows "\<exists>i. purchase_result (build_lookup ss []) i (k, p) \<in> set (reconcileDatasets ps ss)"
proof -
  let ?pm = "build_lookup ps []"
  from assms obtain i where "i < length ?pm" "?pm ! i = (k, p)"
    by (metis in_set_conv_nth)
  then have "purchase_result (build_lookup ss []) (0 + i) (k, p)
      \<in> {purchase_result (build_lookup ss []) (0 + i) (?pm ! i) | i. i < length ?pm}"
    by force
  then show ?thesis
    by (auto simp: reconcileDatasets_eq Let_def set_map_numbered simp del: set_map)
qed

lemma sales_entry_in_results:
  assumes "(k, s) \<in> set (build_lookup ss [])" and "k \<notin> fst ` set (build_lookup ps [])"
  shows "\<exists>i. sales_result i (k, s) \<in> set (reconcileDatasets ps ss)"
proof -
  let ?pm = "build_lookup ps []"
  let ?sm' = "filter (\<lambda>e. fst e \<notin> fst ` set ?pm) (build_lookup ss [])"
  from assms have "(k, s) \<in> set ?sm'" by simp
  then obtain i where "i < length ?sm'" "?sm' ! i = (k, s)"
    by (metis in_set_conv_nth)
  then have "sales_result (length ?pm + i) (k, s)
      \<in> {sales_result (length ?pm + i) (?sm' ! i) | i. i < length ?sm'}"
    by force
  then show ?thesis
    by (auto simp: reconcileDatasets_eq Let_def set_map_numbered simp del: set_map)
qed

lemma matchKeys_reconcileDatasets:
  "map matchKey (reconcileDatasets ps ss)
   = map fst (build_lookup ps [])
     @ map fst (filter (\<lambda>e. fst e \<notin> fst ` set (build_lookup ps [])) (build_lookup ss []))"
  by (simp add: reconcileDatasets_eq Let_def matchKey_purchase_results matchKey_sales_results
      del: map_map)

lemma distinct_matchKeys: "distinct (map matchKey (reconcileDatasets ps ss))"
proof -
  have "distinct (map fst (build_lookup ps []))" "distinct (map fst (build_lookup ss []))"
    by (simp_all add: distinct_build_lookup)
  then show ?thesis
    by (force simp: matchKeys_reconcileDatasets distinct_map_filter)
qed

lemma single_result_for_key:
  assumes "r \<in> set (reconcileDatasets ps ss)"
  shows "filter (\<lambda>x. matchKey x = matchKey r) (reconcileDatasets ps ss) = [r]"
proof -
  have "distinct (map f xs) \<Longrightarrow> x \<in> set xs \<Longrightarrow> filter (\<lambda>y. f y = f x) xs = [x]"
    for f :: "ReconciliationResult \<Rightarrow> string" and xs x
  proof (induction xs)
    case Nil
    then show ?case by simp
  next
    case (Cons a xs)
    show ?case
    proof (cases "a = x")
      case True
      with Cons.prems have "f x \<notin> f ` set xs" by simp
      then have "\<forall>y \<in> set xs. f y \<noteq> f x" by (metis imageI)
      then have "filter (\<lambda>y. f y = f x) xs = []" by (simp add: filter_empty_conv)
      with True show ?thesis by simp
    next
      case False
      with Cons.prems have "x \<in> set xs" "f a \<noteq> f x" by auto
      with Cons show ?thesis by simp
    qed
  qed
  then show ?thesis
    using assms distinct_matchKeys by blast
qed

section \<open>Facts about the aggregator\<close>

lemma pow2_pos: "0 < pow2 e"
  by (simp add: pow2_def)

lemma round_ties_even_nonneg: "0 \<le> x \<Longrightarrow> 0 \<le> round_ties_even x"
  by (auto simp: round_ties_even_def Let_def)

lemma to_double_nonneg: "0 \<le> x \<Longrightarrow> 0 \<le> to_double x"
proof -
  assume x: "0 \<le> x"
  show ?thesis
  proof (cases "x = 0")
    case True
    then show ?thesis by (simp add: to_double_def)
  next
    case False
    with x have "0 < x" by simp
    then have "0 \<le> \<bar>x\<bar> / pow2 (binary_exponent \<bar>x\<bar> - 52)"
      using pow2_pos by (simp add: less_imp_le)
    then have "0 \<le> round_ties_even (\<bar>x\<bar> / pow2 (binary_exponent \<bar>x\<bar> - 52))"
      by (rule round_ties_even_nonneg)
    with \<open>0 < x\<close> show ?thesis
      using pow2_pos [of "binary_exponent \<bar>x\<bar> - 52"]
      by (simp add: to_double_def Let_def less_imp_le)
  qed
qed

lemma Math_round_nonneg: "0 \<le> x \<Longrightarrow> Math_round x = round_half_away_from_zero x"
  by (simp add: Math_round_def round_half_away_from_zero_def)

text \<open>
  \<open>to_double\<close> is rounding to 53 significant bits: \<open>binary_exponent\<close> is the exponent of
  the leading bit, the significand chosen lies between \<open>2\<^sup>5\<^sup>2\<close> and \<open>2\<^sup>5\<^sup>3\<close>, and the result
  is within half a unit in the last place of the argument. The examples include the two
  ties \<open>2\<^sup>5\<^sup>3 + 1\<close> and \<open>2\<^sup>5\<^sup>3 + 3\<close>, which go to the even significand.
\<close>

lemma pow2_powi: "pow2 e = 2 powi e"
proof (cases "0 \<le> e")
  case True
  then show ?thesis by (simp add: pow2_def power_int_def)
next
  case False
  then show ?thesis by (simp add: pow2_def power_int_def inverse_eq_divide power_one_over)
qed

lemma pow2_add: "pow2 (a + b) = pow2 a * pow2 b"
  by (simp add: pow2_powi power_int_add)

lemma pow2_of_nat: "0 \<le> e \<Longrightarrow> pow2 e = 2 ^ nat e"
  by (simp add: pow2_def)

lemma pow2_Suc: "pow2 (e + 1) = 2 * pow2 e"
  by (simp add: pow2_add) (simp add: pow2_def)

lemma bitlen_rat_bounds:
  assumes "0 < a"
  shows "pow2 (bitlen a - 1) \<le> of_int a" and "(of_int a :: rat) < pow2 (bitlen a)"
proof -
  from assms have b: "1 \<le> bitlen a"
    using bitlen_eq_zero_iff [of a] bitlen_nonneg [of a] by linarith
  have "(2::int) ^ nat (bitlen a - 1) \<le> a" "a < 2 ^ nat (bitlen a)"
    using bitlen_bounds [OF assms] by simp_all
  then have "(of_int ((2::int) ^ nat (bitlen a - 1)) :: rat) \<le> of_int a"
    "(of_int a :: rat) < of_int (2 ^ nat (bitlen a))"
    by (simp_all only: of_int_le_iff of_int_less_iff)
  then show "pow2 (bitlen a - 1) \<le> of_int a" and "(of_int a :: rat) < pow2 (bitlen a)"
    using b by (simp_all add: pow2_of_nat)
qed

lemma binary_exponent_bounds:
  assumes "0 < x"
  shows "pow2 (binary_exponent x) \<le> x" and "x < pow2 (binary_exponent x + 1)"
proof -
  obtain a b where q: "quotient_of x = (a, b)" by (cases "quotient_of x")
  then have b: "0 < b" and x: "x = of_int a / of_int b"
    by (simp_all add: quotient_of_denom_pos quotient_of_div)
  with assms have a: "0 < a"
    by (simp add: zero_less_divide_iff)
  let ?k = "bitlen a - bitlen b"
  have lo: "pow2 (?k - 1) < x"
  proof -
    have "pow2 (?k - 1) * of_int b < pow2 (?k - 1) * pow2 (bitlen b)"
      using bitlen_rat_bounds(2) [OF b] pow2_pos by simp
    also have "\<dots> = pow2 (bitlen a - 1)"
      by (simp add: pow2_add [symmetric])
    also have "\<dots> \<le> of_int a"
      by (rule bitlen_rat_bounds(1) [OF a])
    finally show ?thesis
      using b by (simp add: x pos_less_divide_eq)
  qed
  have hi: "x < pow2 (?k + 1)"
  proof -
    have "of_int a < pow2 (bitlen a)"
      by (rule bitlen_rat_bounds(2) [OF a])
    also have "\<dots> = pow2 (?k + 1) * pow2 (bitlen b - 1)"
      by (simp add: pow2_add [symmetric])
    also have "\<dots> \<le> pow2 (?k + 1) * of_int b"
      using bitlen_rat_bounds(1) [OF b] pow2_pos by (simp add: less_imp_le)
    finally show ?thesis
      using b by (simp add: x pos_divide_less_eq)
  qed
  have e: "binary_exponent x = (if pow2 ?k \<le> x then ?k else ?k - 1)"
    by (simp add: binary_exponent_def q Let_def)
  show "pow2 (binary_exponent x) \<le> x"
    using lo by (simp add: e less_imp_le)
  show "x < pow2 (binary_exponent x + 1)"
  proof (cases "pow2 ?k \<le> x")
    case True
    with hi show ?thesis by (simp add: e)
  next
    case False
    then show ?thesis by (simp add: e)
  qed
qed

lemma round_ties_even_error: "\<bar>of_int (round_ties_even y) - y\<bar> \<le> 1 / 2"
proof -
  have "of_int \<lfloor>y\<rfloor> \<le> y" "y < of_int \<lfloor>y\<rfloor> + 1"
    by linarith+
  then show ?thesis
    by (auto simp: round_ties_even_def Let_def abs_le_iff)
qed

lemma round_ties_even_ge: "of_int N \<le> y \<Longrightarrow> N \<le> round_ties_even y"
proof -
  assume "of_int N \<le> y"
  then have "N \<le> \<lfloor>y\<rfloor>" by (simp add: le_floor_iff)
  then show ?thesis
    by (auto simp: round_ties_even_def Let_def)
qed

lemma round_ties_even_le: "y \<le> of_int N \<Longrightarrow> round_ties_even y \<le> N"
proof -
  assume y: "y \<le> of_int N"
  show ?thesis
  proof (cases "y = of_int N")
    case True
    then show ?thesis by (simp add: round_ties_even_def)
  next
    case False
    with y have "y < of_int N" by simp
    then have "\<lfloor>y\<rfloor> < N" by (simp add: floor_less_iff)
    then show ?thesis
      by (auto simp: round_ties_even_def Let_def)
  qed
qed

lemma to_double_significand:
  assumes "0 < x"
  shows "2 ^ 52 \<le> round_ties_even (x / pow2 (binary_exponent x - 52))"
    and "round_ties_even (x / pow2 (binary_exponent x - 52)) \<le> 2 ^ 53"
proof -
  let ?u = "pow2 (binary_exponent x - 52)"
  have u: "0 < ?u" by (rule pow2_pos)
  have c: "pow2 52 = 2 ^ 52" "pow2 53 = 2 ^ 53"
    by (simp_all add: pow2_def)
  have lo: "pow2 (binary_exponent x) = 2 ^ 52 * ?u"
    using pow2_add [of "binary_exponent x - 52" 52] by (simp add: c ac_simps)
  have hi: "pow2 (binary_exponent x + 1) = 2 ^ 53 * ?u"
    using pow2_add [of "binary_exponent x - 52" 53] by (simp add: c ac_simps)
  have "2 ^ 52 * ?u \<le> x" "x < 2 ^ 53 * ?u"
    using binary_exponent_bounds [OF assms] by (simp_all only: lo hi)
  then have a: "of_int (2 ^ 52) \<le> x / ?u" and b: "x / ?u \<le> of_int (2 ^ 53)"
    using u by (simp_all add: pos_le_divide_eq pos_divide_le_eq less_imp_le)
  from a show "2 ^ 52 \<le> round_ties_even (x / ?u)"
    by (rule round_ties_even_ge)
  from b show "round_ties_even (x / ?u) \<le> 2 ^ 53"
    by (rule round_ties_even_le)
qed

lemma to_double_examples:
  "to_double (1 / 8) = 1 / 8"
  "to_double 100 = 100"
  "to_double (1 / 3) = 6004799503160661 / 18014398509481984"
  "to_double 9007199254740993 = 9007199254740992"
  "to_double 9007199254740995 = 9007199254740996"
  "to_double (- 9007199254740993) = - 9007199254740992"
  by code_simp+

lemma to_double_error:
  assumes "x \<noteq> 0"
  shows "\<bar>to_double x - x\<bar> \<le> pow2 (binary_exponent \<bar>x\<bar> - 53)"
proof -
  let ?u = "pow2 (binary_exponent \<bar>x\<bar> - 52)"
  let ?n = "round_ties_even (\<bar>x\<bar> / ?u)"
  have u: "0 < ?u" by (rule pow2_pos)
  have "to_double x - x = sgn x * (of_int ?n - \<bar>x\<bar> / ?u) * ?u"
    using assms u by (simp add: to_double_def Let_def algebra_simps abs_mult_sgn)
  then have "\<bar>to_double x - x\<bar> = \<bar>of_int ?n - \<bar>x\<bar> / ?u\<bar> * ?u"
    using assms u by (simp add: abs_mult abs_sgn_eq)
  also have "\<dots> \<le> 1 / 2 * ?u"
    using round_ties_even_error [of "\<bar>x\<bar> / ?u"] u by (simp add: mult_right_mono less_imp_le)
  also have "\<dots> = pow2 (binary_exponent \<bar>x\<bar> - 53)"
  proof -
    have "pow2 (binary_exponent \<bar>x\<bar> - 52) = 2 * pow2 (binary_exponent \<bar>x\<bar> - 53)"
      using pow2_Suc [of "binary_exponent \<bar>x\<bar> - 53"] by simp
    then show ?thesis by simp
  qed
  finally show ?thesis .
qed

lemma to_double_rel_error: "\<bar>to_double x - x\<bar> \<le> \<bar>x\<bar> / 2 ^ 53"
proof (cases "x = 0")
  case True
  then show ?thesis by (simp add: to_double_def)
next
  case False
  then have pos: "0 < \<bar>x\<bar>" by simp
  have "\<bar>to_double x - x\<bar> \<le> pow2 (binary_exponent \<bar>x\<bar> - 53)"
    by (rule to_double_error [OF False])
  also have "\<dots> = pow2 (binary_exponent \<bar>x\<bar>) * pow2 (- 53)"
    using pow2_add [of "binary_exponent \<bar>x\<bar>" "- 53"] by simp
  also have "\<dots> \<le> \<bar>x\<bar> * pow2 (- 53)"
    using binary_exponent_bounds(1) [OF pos] pow2_pos [of "- 53"]
    by (simp add: mult_right_mono less_imp_le)
  also have "\<dots> = \<bar>x\<bar> / 2 ^ 53"
    by (simp add: pow2_def)
  finally show ?thesis .
qed

lemma abs_via_middle:
  fixes d q x :: rat
  shows "\<bar>d - x * 100\<bar> \<le> \<bar>d - q * 100\<bar> + 100 * \<bar>q - x\<bar>"
proof -
  have e: "d - x * 100 = (d - q * 100) + 100 * (q - x)"
    by (simp add: algebra_simps)
  have "\<bar>(d - q * 100) + 100 * (q - x)\<bar> \<le> \<bar>d - q * 100\<bar> + \<bar>100 * (q - x)\<bar>"
    by (rule abs_triangle_ineq)
  also have "\<bar>100 * (q - x)\<bar> = 100 * \<bar>q - x\<bar>"
    by (simp only: abs_mult abs_numeral)
  finally show ?thesis
    by (simp only: e)
qed

lemma percentage_double_close:
  fixes m n :: nat
  assumes "m \<le> n" and "0 < n"
  shows "\<bar>js_mul (js_div (of_nat m) (of_nat n)) 100 - of_nat m / of_nat n * 100\<bar> < 1 / 2"
proof -
  let ?x = "of_nat m / of_nat n :: rat"
  let ?q = "js_div (of_nat m) (of_nat n)"
  let ?d = "js_mul ?q 100"
  have x: "0 \<le> ?x" "?x \<le> 1"
    using assms by (simp_all add: divide_le_eq_1)
  have q: "\<bar>?q - ?x\<bar> \<le> 1 / 2 ^ 53"
  proof -
    have "\<bar>?q - ?x\<bar> \<le> \<bar>?x\<bar> / 2 ^ 53"
      unfolding js_div_def by (rule to_double_rel_error)
    also have "\<dots> \<le> 1 / 2 ^ 53"
      using x by (simp add: divide_right_mono)
    finally show ?thesis .
  qed
  have "\<bar>?q\<bar> \<le> \<bar>?q - ?x\<bar> + \<bar>?x\<bar>"
    using abs_triangle_ineq [of "?q - ?x" ?x] by simp
  also have "\<dots> \<le> 1 / 2 ^ 53 + 1"
    using q x by (intro add_mono) simp_all
  also have "\<dots> \<le> 2"
    by simp
  finally have qb: "\<bar>?q\<bar> \<le> 2" .
  have d: "\<bar>?d - ?q * 100\<bar> \<le> 200 / 2 ^ 53"
  proof -
    have "\<bar>?d - ?q * 100\<bar> \<le> \<bar>?q * 100\<bar> / 2 ^ 53"
      unfolding js_mul_def by (rule to_double_rel_error)
    also have "\<dots> \<le> 200 / 2 ^ 53"
      using qb by (simp add: abs_mult divide_right_mono)
    finally show ?thesis .
  qed
  have "\<bar>?d - ?x * 100\<bar> \<le> \<bar>?d - ?q * 100\<bar> + 100 * \<bar>?q - ?x\<bar>"
    by (rule abs_via_middle)
  also have "\<dots> \<le> 200 / 2 ^ 53 + 100 * (1 / 2 ^ 53)"
    using d q by (intro add_mono mult_left_mono) simp_all
  also have "\<dots> < 1 / 2"
    by simp
  finally show ?thesis .
qed

lemma floor_close:
  fixes a b :: rat
  assumes "\<bar>a - b\<bar> < 1"
  shows "\<bar>\<lfloor>a\<rfloor> - \<lfloor>b\<rfloor>\<bar> \<le> 1"
proof -
  have "a < b + 1" "b < a + 1"
    using assms by (simp_all add: abs_less_iff) 
  then have "a \<le> b + 1" "b \<le> a + 1"
    by simp_all
  then have "\<lfloor>a\<rfloor> \<le> \<lfloor>b + 1\<rfloor>" "\<lfloor>b\<rfloor> \<le> \<lfloor>a + 1\<rfloor>"
    by (simp_all only: floor_mono)
  then show ?thesis
    by (simp add: abs_le_iff)
qed

lemma percentage_within_one:
  fixes m n :: nat
  assumes "m \<le> n" and "0 < n"
  shows "\<bar>Math_round (js_mul (js_div (of_nat m) (of_nat n)) 100)
          - round_half_away_from_zero (of_nat m / of_nat n * 100)\<bar> \<le> 1"
proof -
  have "0 \<le> (of_nat m / of_nat n * 100 :: rat)"
    by simp
  then have r: "round_half_away_from_zero (of_nat m / of_nat n * 100)
      = \<lfloor>of_nat m / of_nat n * 100 + 1 / 2 :: rat\<rfloor>"
    by (simp add: round_half_away_from_zero_def)
  have "\<bar>(js_mul (js_div (of_nat m) (of_nat n)) 100 + 1 / 2)
        - (of_nat m / of_nat n * 100 + 1 / 2)\<bar> < 1"
    using percentage_double_close [OF assms] by simp
  then show ?thesis
    unfolding r Math_round_def by (rule floor_close)
qed

lemma matchPercentage_unfold:
  "matchPercentage (calculateSummary rs)
   = (if 0 < totalRecords (calculateSummary rs)
      then Math_round (js_mul (js_div (of_nat (matchedCount (calculateSummary rs)))
                                      (of_nat (totalRecords (calculateSummary rs)))) 100)
      else 0)"
  by (simp add: calculateSummary_def Let_def)

lemma count_by_status:
  "length (filter (\<lambda>r. status r = st) rs) = length (filter (\<lambda>x. x = st) (map status rs))"
  by (induction rs) simp_all

lemma status_sample_results:
  "map status (sample_results m n)
   = map (\<lambda>i. if i < m then matched else missing_in_sales) [0 ..< n]"
  by (simp add: sample_results_def sample_result_def)

lemma counts_sample_results:
  "totalRecords (calculateSummary (sample_results m n)) = n"
  "matchedCount (calculateSummary (sample_results m n))
   = length (filter (\<lambda>x. x = matched)
       (map (\<lambda>i. if i < m then matched else missing_in_sales) [0 ..< n]))"
  by (simp_all add: calculateSummary_def Let_def count_by_status status_sample_results)
    (simp add: sample_results_def)

lemma counts_23_of_40:
  "totalRecords (calculateSummary (sample_results 23 40)) = 40"
  "matchedCount (calculateSummary (sample_results 23 40)) = 23"
proof -
  show "totalRecords (calculateSummary (sample_results 23 40)) = 40"
    by (simp add: counts_sample_results)
  have "length (filter (\<lambda>x. x = matched)
       (map (\<lambda>i. if i < 23 then matched else missing_in_sales) [0 ..< 40])) = 23"
    by code_simp
  then show "matchedCount (calculateSummary (sample_results 23 40)) = 23"
    by (simp add: counts_sample_results)
qed

lemma sample_results_are_outputs:
  "reconcileDatasets
     [sample_record ''INV-0'' ''2024-01-05'' ''HCL Technologies'' 1180,
      sample_record ''INV-1'' ''2024-01-05'' ''HCL Technologies'' 1180]
     [sample_record ''INV-0'' ''05-01-2024'' ''HCL Technologies'' 1180]
   = sample_results 1 2"
  by code_simp

lemma percentage_23_of_40_doubles:
  "js_div 23 40 = 2589569785738035 / 4503599627370496"
  "js_mul (2589569785738035 / 4503599627370496) 100 = 8092405580431359 / 140737488355328"
  "Math_round (8092405580431359 / 140737488355328) = 57"
  by code_simp+

section \<open>Claims\<close>

text \<open>
  C10. The match key is a function of the invoice number and the invoice date alone:
  two records that agree on these two fields have the same key, whatever their other
  fields hold.
\<close>

theorem generateMatchKey_depends_on_invoice_fields:
  "invoiceNo r1 = invoiceNo r2 \<Longrightarrow> invoiceDate r1 = invoiceDate r2
   \<Longrightarrow> generateMatchKey r1 = generateMatchKey r2"
  by (simp add: generateMatchKey_def)

theorem generateMatchKey_depends_on_invoice_fields_witness:
  "generateMatchKey
     \<lparr>recordId = ''row-0'', gstin = ''27AAACH1234F1Z5'', partyName = ''HCL Technologies'',
      invoiceNo = ''INV-1'', invoiceDate = ''05-01-2024'', taxableAmount = 1000, igst = 180,
      cgst = 0, sgst = 0, totalAmount = 1180, rawData = [(''Invoice No'', Str ''INV-1'')]\<rparr>
   = generateMatchKey
     \<lparr>recordId = ''row-7'', gstin = [], partyName = ''Wipro'',
      invoiceNo = ''INV-1'', invoiceDate = ''05-01-2024'', taxableAmount = 5, igst = 0,
      cgst = 9, sgst = 9, totalAmount = 23, rawData = []\<rparr>"
  by (rule generateMatchKey_depends_on_invoice_fields) simp_all

text \<open>
  C5. A record whose date is written DD-MM-YYYY or DD/MM/YYYY gets the same match key
  as the same record with that date written YYYY-MM-DD. The instance for INV-1 and the
  dates 05-01-2024, 05/01/2024 and 2024-01-05 follows it.
\<close>

theorem generateMatchKey_date_format_equivalence:
  assumes "list_all is_digit [d1, d2, m1, m2, y1, y2, y3, y4]" and "is_date_sep sep"
  shows "generateMatchKey (r\<lparr>invoiceDate := [d1, d2, sep, m1, m2, sep, y1, y2, y3, y4]\<rparr>)
       = generateMatchKey
           (r\<lparr>invoiceDate := [y1, y2, y3, y4, CHR ''-'', m1, m2, CHR ''-'', d1, d2]\<rparr>)"
proof -
  let ?dmy = "[d1, d2, sep, m1, m2, sep, y1, y2, y3, y4]"
  let ?iso = "[y1, y2, y3, y4, CHR ''-'', m1, m2, CHR ''-'', d1, d2]"
  have t1: "trim ?dmy = ?dmy"
    using assms by (intro trim_id) (auto simp: digit_not_space)
  have t2: "trim ?iso = ?iso"
    using assms by (intro trim_id) (auto simp: digit_not_space)
  have n1: "\<not> isoMatch ?dmy"
    using assms by (auto simp: isoMatch_def sep_not_digit)
  have i1: "indianMatch ?dmy = Some ([d1, d2], [m1, m2], [y1, y2, y3, y4])"
    using assms by (simp add: indianMatch_def)
  have i2: "isoMatch ?iso"
    using assms by (simp add: isoMatch_def)
  have "normalizeDate ?dmy = ?iso"
    by (simp add: normalizeDate_def t1 n1 i1 del: list.simps)
  moreover have "normalizeDate ?iso = ?iso"
    by (simp add: normalizeDate_def t2 i2)
  ultimately show ?thesis
    by (simp add: generateMatchKey_def)
qed

theorem generateMatchKey_date_format_equivalence_witness:
  "list_all is_digit ''05012024'' \<and> is_date_sep CHR ''-'' \<and> is_date_sep CHR ''/''
   \<and> generateMatchKey (inv1 ''05-01-2024'') = generateMatchKey (inv1 ''2024-01-05'')
   \<and> generateMatchKey (inv1 ''05/01/2024'') = generateMatchKey (inv1 ''2024-01-05'')"
proof -
  have d: "list_all is_digit
      [CHR ''0'', CHR ''5'', CHR ''0'', CHR ''1'', CHR ''2'', CHR ''0'', CHR ''2'', CHR ''4'']"
    by (simp add: is_digit_def code_unit_def)
  have s1: "is_date_sep CHR ''-''" and s2: "is_date_sep CHR ''/''"
    by (simp_all add: is_date_sep_def)
  show ?thesis
    using d s1 s2
      generateMatchKey_date_format_equivalence [OF d s1, of "inv1 []"]
      generateMatchKey_date_format_equivalence [OF d s2, of "inv1 []"]
    by (simp add: inv1_def)
qed

text \<open>
  C4. In the summary of any result list the four per-status counts add up to
  \<open>totalRecords\<close>, \<open>totalRecords\<close> is the length of the list, and the status of every
  counted result is one of the four values of the enumeration.
\<close>

theorem calculateSummary_partition:
  "matchedCount (calculateSummary rs) + mismatchedCount (calculateSummary rs)
     + missingInPurchaseCount (calculateSummary rs) + missingInSalesCount (calculateSummary rs)
   = totalRecords (calculateSummary rs)
   \<and> totalRecords (calculateSummary rs) = length rs
   \<and> (\<forall>r \<in> set rs. status r \<in> {matched, mismatched, missing_in_purchase, missing_in_sales})"
proof -
  have all: "status r \<in> {matched, mismatched, missing_in_purchase, missing_in_sales}"
    for r :: ReconciliationResult
    by (cases "status r") simp_all
  have "length (filter (\<lambda>r. status r = matched) rs)
      + length (filter (\<lambda>r. status r = mismatched) rs)
      + length (filter (\<lambda>r. status r = missing_in_purchase) rs)
      + length (filter (\<lambda>r. status r = missing_in_sales) rs) = length rs"
  proof (induction rs)
    case Nil
    show ?case by simp
  next
    case (Cons r rs)
    then show ?case by (cases "status r") simp_all
  qed
  then show ?thesis
    using all by (simp add: calculateSummary_def Let_def)
qed

theorem calculateSummary_partition_witness:
  "matchedCount (calculateSummary
      [sample_result 0 matched, sample_result 1 missing_in_sales, sample_result 2 matched])
   + mismatchedCount (calculateSummary
      [sample_result 0 matched, sample_result 1 missing_in_sales, sample_result 2 matched])
   + missingInPurchaseCount (calculateSummary
      [sample_result 0 matched, sample_result 1 missing_in_sales, sample_result 2 matched])
   + missingInSalesCount (calculateSummary
      [sample_result 0 matched, sample_result 1 missing_in_sales, sample_result 2 matched]) = 3
   \<and> totalRecords (calculateSummary
      [sample_result 0 matched, sample_result 1 missing_in_sales, sample_result 2 matched]) = 3
   \<and> matchedCount (calculateSummary
      [sample_result 0 matched, sample_result 1 missing_in_sales, sample_result 2 matched]) = 2
   \<and> missingInSalesCount (calculateSummary
      [sample_result 0 matched, sample_result 1 missing_in_sales, sample_result 2 matched]) = 1
   \<and> status (sample_result 1 missing_in_sales)
       \<in> {matched, mismatched, missing_in_purchase, missing_in_sales}"
  using calculateSummary_partition
    [of "[sample_result 0 matched, sample_result 1 missing_in_sales, sample_result 2 matched]"]
  by (simp add: calculateSummary_def sample_result_def)







text \<open>
  C2. For a key held by the purchase map only, exactly one result carries the key: its
  status is missing_in_sales, the purchase record is attached, there is no sales record
  and no reason, and \<open>totalDifference\<close> is the purchase total. For a key held by the sales
  map only, the one result is missing_in_purchase, with the sales record, no purchase
  record, no reason, and \<open>totalDifference\<close> the negated sales total.
\<close>

theorem reconcileDatasets_key_on_one_side:
  "(map_get (build_lookup ps []) k = Some p \<and> map_get (build_lookup ss []) k = None
      \<longrightarrow> (\<exists>r. filter (\<lambda>x. matchKey x = k) (reconcileDatasets ps ss) = [r]
            \<and> status r = missing_in_sales \<and> purchaseRecord r = Some p \<and> salesRecord r = None
            \<and> mismatchReasons r = [] \<and> totalDifference r = totalAmount p))
   \<and> (map_get (build_lookup ps []) k = None \<and> map_get (build_lookup ss []) k = Some s
      \<longrightarrow> (\<exists>r. filter (\<lambda>x. matchKey x = k) (reconcileDatasets ps ss) = [r]
            \<and> status r = missing_in_purchase \<and> purchaseRecord r = None
            \<and> salesRecord r = Some s \<and> mismatchReasons r = []
            \<and> totalDifference r = - totalAmount s))"
proof (intro conjI impI)
  assume a: "map_get (build_lookup ps []) k = Some p \<and> map_get (build_lookup ss []) k = None"
  then have "(k, p) \<in> set (build_lookup ps [])"
    by (simp add: lookup_entry)
  then obtain i where r:
    "purchase_result (build_lookup ss []) i (k, p) \<in> set (reconcileDatasets ps ss)"
    using purchase_entry_in_results by blast
  let ?r = "purchase_result (build_lookup ss []) i (k, p)"
  have "filter (\<lambda>x. matchKey x = k) (reconcileDatasets ps ss) = [?r]"
    using single_result_for_key [OF r] by simp
  moreover have "status ?r = missing_in_sales \<and> purchaseRecord ?r = Some p
      \<and> salesRecord ?r = None \<and> mismatchReasons ?r = [] \<and> totalDifference ?r = totalAmount p"
    using a by (simp add: purchase_result_def)
  ultimately show "\<exists>r. filter (\<lambda>x. matchKey x = k) (reconcileDatasets ps ss) = [r]
            \<and> status r = missing_in_sales \<and> purchaseRecord r = Some p \<and> salesRecord r = None
            \<and> mismatchReasons r = [] \<and> totalDifference r = totalAmount p"
    by blast
next
  assume a: "map_get (build_lookup ps []) k = None \<and> map_get (build_lookup ss []) k = Some s"
  then have "(k, s) \<in> set (build_lookup ss [])" "k \<notin> fst ` set (build_lookup ps [])"
    by (simp_all add: lookup_entry lookup_None_iff)
  then obtain i where r: "sales_result i (k, s) \<in> set (reconcileDatasets ps ss)"
    using sales_entry_in_results by blast
  let ?r = "sales_result i (k, s)"
  have "filter (\<lambda>x. matchKey x = k) (reconcileDatasets ps ss) = [?r]"
    using single_result_for_key [OF r] by simp
  moreover have "status ?r = missing_in_purchase \<and> purchaseRecord ?r = None
      \<and> salesRecord ?r = Some s \<and> mismatchReasons ?r = []
      \<and> totalDifference ?r = - totalAmount s"
    by (simp add: sales_result_def)
  ultimately show "\<exists>r. filter (\<lambda>x. matchKey x = k) (reconcileDatasets ps ss) = [r]
            \<and> status r = missing_in_purchase \<and> purchaseRecord r = None
            \<and> salesRecord r = Some s \<and> mismatchReasons r = []
            \<and> totalDifference r = - totalAmount s"
    by blast
qed

theorem reconcileDatasets_key_on_one_side_witness:
  "(\<exists>r. filter (\<lambda>x. matchKey x = ''INV-2024-016|2024-01-20'')
          (reconcileDatasets
             [sample_record ''INV-1'' ''2024-01-05'' ''HCL Technologies'' 1180,
              sample_record ''INV-2024-016'' ''2024-01-20'' ''Wipro'' 500]
             [sample_record ''INV-1'' ''05-01-2024'' ''HCL Technologies'' 1175,
              sample_record ''INV-2024-012'' ''2024-01-12'' ''Infosys'' 700]) = [r]
        \<and> status r = missing_in_sales \<and> salesRecord r = None \<and> totalDifference r = 500)
   \<and> (\<exists>r. filter (\<lambda>x. matchKey x = ''INV-2024-012|2024-01-12'')
          (reconcileDatasets
             [sample_record ''INV-1'' ''2024-01-05'' ''HCL Technologies'' 1180,
              sample_record ''INV-2024-016'' ''2024-01-20'' ''Wipro'' 500]
             [sample_record ''INV-1'' ''05-01-2024'' ''HCL Technologies'' 1175,
              sample_record ''INV-2024-012'' ''2024-01-12'' ''Infosys'' 700]) = [r]
        \<and> status r = missing_in_purchase \<and> purchaseRecord r = None
        \<and> totalDifference r = - 700)"
proof -
  let ?p2 = "sample_record ''INV-2024-016'' ''2024-01-20'' ''Wipro'' 500"
  let ?s2 = "sample_record ''INV-2024-012'' ''2024-01-12'' ''Infosys'' 700"
  let ?ps = "[sample_record ''INV-1'' ''2024-01-05'' ''HCL Technologies'' 1180, ?p2]"
  let ?ss = "[sample_record ''INV-1'' ''05-01-2024'' ''HCL Technologies'' 1175, ?s2]"
  have p1: "map_get (build_lookup ?ps []) ''INV-2024-016|2024-01-20'' = Some ?p2"
    and s1: "map_get (build_lookup ?ss []) ''INV-2024-016|2024-01-20'' = None"
    and p2: "map_get (build_lookup ?ps []) ''INV-2024-012|2024-01-12'' = None"
    and s2: "map_get (build_lookup ?ss []) ''INV-2024-012|2024-01-12'' = Some ?s2"
    by (simp_all add: map_get_def sample_keys)
  have t: "totalAmount ?p2 = 500" "totalAmount ?s2 = 700"
    by (simp_all add: sample_record_def)
  have a: "\<exists>r. filter (\<lambda>x. matchKey x = ''INV-2024-016|2024-01-20'')
          (reconcileDatasets ?ps ?ss) = [r]
        \<and> status r = missing_in_sales \<and> salesRecord r = None \<and> totalDifference r = 500"
    using reconcileDatasets_key_on_one_side
        [of ?ps "''INV-2024-016|2024-01-20''" ?p2 ?ss ?s2] p1 s1
    unfolding t by blast
  have b: "\<exists>r. filter (\<lambda>x. matchKey x = ''INV-2024-012|2024-01-12'')
          (reconcileDatasets ?ps ?ss) = [r]
        \<and> status r = missing_in_purchase \<and> purchaseRecord r = None
        \<and> totalDifference r = - 700"
    using reconcileDatasets_key_on_one_side
        [of ?ps "''INV-2024-012|2024-01-12''" ?p2 ?ss ?s2] p2 s2
    unfolding t by blast
  from a b show ?thesis by blast
qed

text \<open>
  C8. The results carry pairwise distinct match keys, and these are exactly the keys
  generated from the two inputs, so there is one result per distinct key. The record a
  result carries for either side is the last record of that input, in input order,
  that generates the result's key, and none if no record generates it.
\<close>

theorem reconcileDatasets_one_result_per_key:
  "distinct (map matchKey (reconcileDatasets ps ss))
   \<and> set (map matchKey (reconcileDatasets ps ss))
     = generateMatchKey ` set ps \<union> generateMatchKey ` set ss
   \<and> length (reconcileDatasets ps ss) = card (generateMatchKey ` set ps \<union> generateMatchKey ` set ss)
   \<and> (\<forall>r \<in> set (reconcileDatasets ps ss).
        purchaseRecord r = find (\<lambda>p. generateMatchKey p = matchKey r) (rev ps)
        \<and> salesRecord r = find (\<lambda>s. generateMatchKey s = matchKey r) (rev ss))"
proof -
  let ?pm = "build_lookup ps []" and ?sm = "build_lookup ss []"
  have d: "distinct (map matchKey (reconcileDatasets ps ss))"
    by (rule distinct_matchKeys)
  have "set (map matchKey (reconcileDatasets ps ss)) = fst ` set ?pm \<union> fst ` set ?sm"
    by (auto simp: matchKeys_reconcileDatasets)
  then have k: "set (map matchKey (reconcileDatasets ps ss))
      = generateMatchKey ` set ps \<union> generateMatchKey ` set ss"
    by (simp add: keys_build_lookup)
  have l: "length (reconcileDatasets ps ss)
      = card (generateMatchKey ` set ps \<union> generateMatchKey ` set ss)"
    using distinct_card [OF d] k by simp
  have recs: "purchaseRecord r = find (\<lambda>p. generateMatchKey p = matchKey r) (rev ps)
        \<and> salesRecord r = find (\<lambda>s. generateMatchKey s = matchKey r) (rev ss)"
    if "r \<in> set (reconcileDatasets ps ss)" for r
    using that
  proof (cases rule: in_results_cases)
    case (purchase i k p)
    then have "map_of ?pm k = Some p"
      by (simp add: distinct_build_lookup)
    then have "find (\<lambda>p. generateMatchKey p = k) (rev ps) = Some p"
      by (simp add: map_of_build_lookup_Nil)
    moreover have "salesRecord r = map_of ?sm k"
      using purchase by (simp add: purchase_result_def map_get_def split: option.split)
    ultimately show ?thesis
      using purchase by (simp add: map_of_build_lookup_Nil purchase_result_def split: option.split)
  next
    case (sales i k s)
    then have "map_of ?sm k = Some s" "map_of ?pm k = None"
      by (simp_all add: distinct_build_lookup map_of_eq_None_iff)
    then show ?thesis
      using sales by (simp add: map_of_build_lookup_Nil sales_result_def)
  qed
  from d k l recs show ?thesis by blast
qed

theorem reconcileDatasets_one_result_per_key_witness:
  "length (reconcileDatasets
      [sample_record ''INV-1'' ''2024-01-05'' ''HCL Technologies'' 1180,
       sample_record ''inv-1'' ''05/01/2024'' ''HCL Tech'' 999]
      [sample_record ''INV-2024-012'' ''2024-01-12'' ''Infosys'' 700]) = 2
   \<and> map purchaseRecord (reconcileDatasets
      [sample_record ''INV-1'' ''2024-01-05'' ''HCL Technologies'' 1180,
       sample_record ''inv-1'' ''05/01/2024'' ''HCL Tech'' 999]
      [sample_record ''INV-2024-012'' ''2024-01-12'' ''Infosys'' 700])
     = [Some (sample_record ''inv-1'' ''05/01/2024'' ''HCL Tech'' 999), None]"
proof -
  let ?ps = "[sample_record ''INV-1'' ''2024-01-05'' ''HCL Technologies'' 1180,
       sample_record ''inv-1'' ''05/01/2024'' ''HCL Tech'' 999]"
  let ?ss = "[sample_record ''INV-2024-012'' ''2024-01-12'' ''Infosys'' 700]"
  note inst = reconcileDatasets_one_result_per_key [of ?ps ?ss]
  have len: "length (reconcileDatasets ?ps ?ss) = 2"
    using inst by (simp add: sample_keys)
  then obtain r1 r2 where rs: "reconcileDatasets ?ps ?ss = [r1, r2]"
    by (auto simp: length_Suc_conv numeral_2_eq_2)
  have keys: "map matchKey (reconcileDatasets ?ps ?ss)
      = [''INV-1|2024-01-05'', ''INV-2024-012|2024-01-12'']"
    by (simp add: matchKeys_reconcileDatasets sample_keys)
  have "purchaseRecord r1 = Some (sample_record ''inv-1'' ''05/01/2024'' ''HCL Tech'' 999)"
    "purchaseRecord r2 = None"
    using inst keys by (simp_all add: rs sample_keys)
  with len rs show ?thesis by simp
qed




text \<open>
  C9, as amended. For every result list, \<open>matchPercentage\<close> is 0 when the list is empty
  and otherwise the rounding, half away from zero, of the double that the Number
  expression \<open>(matchedCount / totalRecords) * 100\<close> evaluates to: the quotient is rounded
  to the nearest double, and so is its product with 100. \<open>Math.round\<close> rounds a tie
  towards \<open>+\<infinity>\<close>, which on this non-negative value is rounding half away from zero.
  No division takes place for the empty list. The result differs by at most 1 from the
  percentage computed with the exact quotient.
\<close>

theorem calculateSummary_matchPercentage:
  "matchPercentage (calculateSummary rs)
   = (if 0 < totalRecords (calculateSummary rs)
      then round_half_away_from_zero
             (js_mul (js_div (of_nat (matchedCount (calculateSummary rs)))
                             (of_nat (totalRecords (calculateSummary rs)))) 100)
      else 0)
   \<and> \<bar>matchPercentage (calculateSummary rs)
        - spec_matchPercentage (matchedCount (calculateSummary rs))
            (totalRecords (calculateSummary rs))\<bar> \<le> 1"
proof -
  let ?m = "matchedCount (calculateSummary rs)" and ?n = "totalRecords (calculateSummary rs)"
  have nonneg: "0 \<le> js_mul (js_div (of_nat m) (of_nat n)) 100" for m n :: nat
    by (simp add: js_mul_def js_div_def to_double_nonneg)
  have a: "matchPercentage (calculateSummary rs)
     = (if 0 < ?n then round_half_away_from_zero (js_mul (js_div (of_nat ?m) (of_nat ?n)) 100)
        else 0)"
    using nonneg by (simp add: matchPercentage_unfold Math_round_nonneg)
  have le: "?m \<le> ?n"
    by (simp add: calculateSummary_def Let_def)
  have b: "\<bar>matchPercentage (calculateSummary rs) - spec_matchPercentage ?m ?n\<bar> \<le> 1"
  proof (cases "0 < ?n")
    case True
    then show ?thesis
      using percentage_within_one [OF le True]
      by (simp add: matchPercentage_unfold spec_matchPercentage_def)
  next
    case False
    then show ?thesis
      by (simp add: matchPercentage_unfold spec_matchPercentage_def)
  qed
  from a b show ?thesis ..
qed

theorem calculateSummary_matchPercentage_witness:
  "matchPercentage (calculateSummary (sample_results 1 8)) = 13
   \<and> matchPercentage (calculateSummary []) = 0"
proof -
  have "length (filter (\<lambda>x. x = matched)
       (map (\<lambda>i. if i < 1 then matched else missing_in_sales) [0 ..< 8])) = 1"
    by code_simp
  then have "matchedCount (calculateSummary (sample_results 1 8)) = 1"
    "totalRecords (calculateSummary (sample_results 1 8)) = 8"
    "totalRecords (calculateSummary []) = 0"
    by (simp_all add: counts_sample_results) (simp add: calculateSummary_def)
  moreover have "round_half_away_from_zero (js_mul (js_div 1 8) 100) = 13"
    by code_simp
  ultimately show ?thesis
    using calculateSummary_matchPercentage [of "sample_results 1 8"]
      calculateSummary_matchPercentage [of "[]"]
    by simp
qed

text \<open>
  C9, as stated, fails at 23 matched results out of 40. The exact quotient times 100 is
  57.5, which rounds half away from zero to 58. The code computes the double nearest to
  23/40, which is below 0.575, and the double nearest to its product with 100, which
  is 57.49999999999999289; \<open>Math.round\<close> of it is 57.
\<close>

theorem calculateSummary_matchPercentage_counterexample:
  "totalRecords (calculateSummary (sample_results 23 40)) = 40
   \<and> matchedCount (calculateSummary (sample_results 23 40)) = 23
   \<and> matchPercentage (calculateSummary (sample_results 23 40)) = 57
   \<and> spec_matchPercentage 23 40 = 58
   \<and> matchPercentage (calculateSummary (sample_results 23 40))
       \<noteq> spec_matchPercentage (matchedCount (calculateSummary (sample_results 23 40)))
           (totalRecords (calculateSummary (sample_results 23 40)))"
proof -
  have "Math_round (js_mul (js_div 23 40) 100) = 57"
    by (simp only: percentage_23_of_40_doubles)
  then have p: "matchPercentage (calculateSummary (sample_results 23 40)) = 57"
    by (simp add: matchPercentage_unfold counts_23_of_40)
  have s: "spec_matchPercentage 23 40 = 58"
    by code_simp
  show ?thesis
    by (simp add: counts_23_of_40 p s)
qed

end
